theory Spec2Isabelle
  imports Complex_Main "HOL-Library.Word"
begin

unbundle bit_operations_syntax

section \<open>Data model\<close>

text \<open>
  The embedding follows the class \<^verbatim>\<open>DeviceService\<close> of the binary-protocol signal
  processing service (the one with \<^verbatim>\<open>crc8\<close>, \<^verbatim>\<open>processBinaryFrames\<close> and the FFT), together
  with \<^verbatim>\<open>types.ts\<close> and \<^verbatim>\<open>constants.ts\<close>. The repository also holds a variant of the
  service that reads comma-separated text; it is not what is modelled here.

  A \<^verbatim>\<open>Uint8Array\<close> is a list of octets. A JavaScript \<^verbatim>\<open>number\<close> that only ever holds
  an integer is an \<open>int\<close>: on values inside the signed 32-bit range the operators
  \<^verbatim>\<open>^\<close>, \<^verbatim>\<open>&\<close>, \<^verbatim>\<open>|\<close> and \<^verbatim>\<open>>>\<close> of JavaScript are \<open>XOR\<close>, \<open>AND\<close>, \<open>OR\<close> and
  \<open>drop_bit\<close> on \<open>int\<close>, and every integer the modelled code computes stays inside
  that range. A \<^verbatim>\<open>number\<close> that holds a measurement is a \<open>real\<close>: the arithmetic
  of the model is exact, it does not round as IEEE-754 doubles do.
\<close>

type_synonym byte = "8 word"

record EEGDataPoint =
  timestamp :: int
  valueUv :: real

record FrequencyBands =
  delta :: real
  theta :: real
  alpha :: real
  beta :: real
  gamma :: real

record AnalysisMetrics =
  attention :: real
  relaxation :: real
  isMeditating :: bool

record Snapshot =
  raw :: EEGDataPoint
  bands :: FrequencyBands
  metrics :: AnalysisMetrics

record DeviceService =
  isConnected :: bool
  binaryBuffer :: "byte list"
  rawSignalBuffer :: "real list"
  isSimulating :: bool
  agitationLevel :: real
  lastAcceleration :: "(real \<times> real \<times> real) option"
  latestData :: Snapshot

definition MEDITATION_THRESHOLD :: real where
  "MEDITATION_THRESHOLD = 0.85"

definition FFT_SIZE :: nat where
  "FFT_SIZE = 256"

definition UV_SCALE :: real where
  "UV_SCALE = (2.4 / 6 / 8388607) * 1000000"

text \<open>\<^verbatim>\<open>resetData\<close>: the zero snapshot and empty buffers.\<close>

definition zeroSnapshot :: Snapshot where
  "zeroSnapshot =
     \<lparr>raw = \<lparr>timestamp = 0, valueUv = 0\<rparr>,
      bands = \<lparr>delta = 0, theta = 0, alpha = 0, beta = 0, gamma = 0\<rparr>,
      metrics = \<lparr>attention = 0, relaxation = 0, isMeditating = False\<rparr>\<rparr>"

definition resetData :: "DeviceService \<Rightarrow> DeviceService" where
  "resetData s = s\<lparr>latestData := zeroSnapshot, rawSignalBuffer := [], binaryBuffer := []\<rparr>"

text \<open>The field initialisers of the class.\<close>

definition newDeviceService :: DeviceService where
  "newDeviceService =
     \<lparr>isConnected = False, binaryBuffer = [], rawSignalBuffer = [], isSimulating = False,
      agitationLevel = 0, lastAcceleration = None, latestData = zeroSnapshot\<rparr>"

section \<open>Checksum engine\<close>

text \<open>
  \<^verbatim>\<open>crc8\<close>: the inner loop runs eight rounds on the pair \<open>(crc, byte)\<close>; the first
  argument of \<open>crc8_rounds\<close> counts the rounds still to run. The outer loop visits the
  elements of \<open>data\<close> in order, starting from \<open>crc = 0\<close>.
\<close>

fun crc8_rounds :: "nat \<Rightarrow> int \<Rightarrow> int \<Rightarrow> int" where
  "crc8_rounds 0 crc byte = crc"
| "crc8_rounds (Suc n) crc byte =
     (let mix = (crc XOR byte) AND 0x01;
          crc1 = drop_bit 1 crc;
          crc2 = (if mix \<noteq> 0 then crc1 XOR 0x8C else crc1)
      in crc8_rounds n crc2 (drop_bit 1 byte))"

definition crc8 :: "int list \<Rightarrow> int" where
  "crc8 data = foldl (\<lambda>crc byte. crc8_rounds 8 crc byte) 0x00 data"

text \<open>
  The reference Maxim/Dallas CRC-8 (polynomial \<open>x^8 + x^5 + x^4 + 1\<close>, reflected, initial
  value 0, no final XOR), written from its usual description and not from the source: an
  8-bit shift register; each input octet is XORed into the register, which is then
  shifted right eight times, XORing in \<open>0x8C\<close> whenever a 1 is shifted out.
\<close>

fun maxim_shift :: "nat \<Rightarrow> byte \<Rightarrow> byte" where
  "maxim_shift 0 reg = reg"
| "maxim_shift (Suc n) reg =
     maxim_shift n (if bit reg 0 then drop_bit 1 reg XOR 0x8C else drop_bit 1 reg)"

definition maxim_crc8 :: "byte list \<Rightarrow> byte" where
  "maxim_crc8 bs = foldl (\<lambda>reg b. maxim_shift 8 (reg XOR b)) 0 bs"

section \<open>Frame decoder\<close>

text \<open>\<^verbatim>\<open>Uint8Array.indexOf\<close>, with \<open>None\<close> for \<open>-1\<close>; \<^verbatim>\<open>slice(a, b)\<close> and \<^verbatim>\<open>slice(a)\<close>.\<close>

fun indexOf :: "byte list \<Rightarrow> byte \<Rightarrow> nat option" where
  "indexOf [] v = None"
| "indexOf (b # bs) v = (if b = v then Some 0 else map_option Suc (indexOf bs v))"

definition slice :: "nat \<Rightarrow> nat \<Rightarrow> 'a list \<Rightarrow> 'a list" where
  "slice a b xs = take (b - a) (drop a xs)"

definition sliceFrom :: "nat \<Rightarrow> 'a list \<Rightarrow> 'a list" where
  "sliceFrom a xs = drop a xs"

definition appendBuffer :: "byte list \<Rightarrow> DeviceService \<Rightarrow> DeviceService" where
  "appendBuffer newData s = s\<lparr>binaryBuffer := binaryBuffer s @ newData\<rparr>"

text \<open>
  One pass through the \<^verbatim>\<open>while\<close> loop of \<^verbatim>\<open>processBinaryFrames\<close>, its condition
  included. \<open>Break\<close> leaves the loop (the condition fails, or a \<^verbatim>\<open>break\<close>), \<open>Continue\<close>
  goes round again; both carry the local \<open>buffer\<close> and the state of the rest of the
  object. The call \<^verbatim>\<open>this.parseEEGPayload(payload)\<close> is the parameter \<open>parse\<close>, so that
  the loop can be run with the sample decoder or with a handler that records the
  payloads it is given. \<^verbatim>\<open>console.warn\<close> writes a diagnostic and changes nothing.
\<close>

datatype 's iteration = Break "byte list" 's | Continue "byte list" 's

definition loopBody :: "(byte list \<Rightarrow> 's \<Rightarrow> 's) \<Rightarrow> byte list \<Rightarrow> 's \<Rightarrow> 's iteration" where
  "loopBody parse buffer s =
     (if \<not> length buffer \<ge> 6 then Break buffer s
      else case indexOf buffer 0xAA of
        None \<Rightarrow> Break [] s
      | Some startIndex \<Rightarrow>
          if startIndex > 0 then Continue (sliceFrom startIndex buffer) s
          else if length buffer < 4 then Break buffer s
          else
            let func = buffer ! 1;
                addr = buffer ! 2;
                len = unat (buffer ! 3);
                packetSize = 4 + len + 2
            in if length buffer < packetSize then Break buffer s
               else if buffer ! (packetSize - 1) \<noteq> 0xBB then Continue (sliceFrom 1 buffer) s
               else
                 let crcSource = slice 1 (packetSize - 2) buffer;
                     receivedCrc = uint (buffer ! (packetSize - 2));
                     calculatedCrc = crc8 (map uint crcSource)
                 in if receivedCrc = calculatedCrc
                    then Continue (sliceFrom packetSize buffer)
                           (if func = 0xF0 then parse (slice 4 (4 + len) buffer) s else s)
                    else Continue (sliceFrom 1 buffer) s)"

text \<open>The loop itself. Every \<open>Continue\<close> carries a shorter buffer, which is its measure.\<close>

function processLoop :: "(byte list \<Rightarrow> 's \<Rightarrow> 's) \<Rightarrow> byte list \<Rightarrow> 's \<Rightarrow> byte list \<times> 's" where
  "processLoop parse buffer s =
     (case loopBody parse buffer s of
        Break buffer' s' \<Rightarrow> (buffer', s')
      | Continue buffer' s' \<Rightarrow> processLoop parse buffer' s')"
  by pat_completeness auto
termination
proof (relation "measure (\<lambda>(parse, buffer, s). length buffer)")
  show "wf (measure (\<lambda>(parse :: byte list \<Rightarrow> 's \<Rightarrow> 's, buffer, s :: 's). length buffer))"
    by simp
next
  fix parse :: "byte list \<Rightarrow> 's \<Rightarrow> 's" and buffer :: "byte list" and s s' :: 's
    and buffer' :: "byte list"
  assume c: "loopBody parse buffer s = Continue buffer' s'"
  have ix: "indexOf xs v = Some i \<Longrightarrow> i < length xs" for xs v i
    by (induction xs arbitrary: i) (auto split: if_splits)
  from c have "length buffer' < length buffer"
    by (auto simp: loopBody_def sliceFrom_def Let_def dest: ix split: if_splits option.splits)
  then show "((parse, buffer', s'), (parse, buffer, s))
      \<in> measure (\<lambda>(parse, buffer, s). length buffer)"
    by simp
qed

declare processLoop.simps [simp del]

text \<open>
  The same loop with a bound on the number of passes: \<open>None\<close> when the bound is used up
  before the loop is left.
\<close>

fun processFuel :: "nat \<Rightarrow> (byte list \<Rightarrow> 's \<Rightarrow> 's) \<Rightarrow> byte list \<Rightarrow> 's \<Rightarrow> (byte list \<times> 's) option" where
  "processFuel 0 parse buffer s = None"
| "processFuel (Suc n) parse buffer s =
     (case loopBody parse buffer s of
        Break buffer' s' \<Rightarrow> Some (buffer', s')
      | Continue buffer' s' \<Rightarrow> processFuel n parse buffer' s')"

text \<open>A handler that only records the payloads it is handed, in order.\<close>

definition record_payload :: "byte list \<Rightarrow> byte list list \<Rightarrow> byte list list" where
  "record_payload payload seen = seen @ [payload]"

text \<open>
  The frames of the wire protocol:
  \<open>START | FUNCTION | ADDRESS | LENGTH | PAYLOAD | CRC | END\<close>, the CRC over
  \<open>FUNCTION..PAYLOAD\<close>. \<open>frame_of\<close> builds the frame with the right checksum.
\<close>

definition frame_with_crc :: "byte \<Rightarrow> byte \<Rightarrow> byte list \<Rightarrow> byte \<Rightarrow> byte list" where
  "frame_with_crc func addr payload crc =
     [0xAA, func, addr, word_of_nat (length payload)] @ payload @ [crc, 0xBB]"

definition frame_crc :: "byte \<Rightarrow> byte \<Rightarrow> byte list \<Rightarrow> byte" where
  "frame_crc func addr payload =
     word_of_int (crc8 (map uint ([func, addr, word_of_nat (length payload)] @ payload)))"

definition frame_of :: "byte \<Rightarrow> byte \<Rightarrow> byte list \<Rightarrow> byte list" where
  "frame_of func addr payload = frame_with_crc func addr payload (frame_crc func addr payload)"


section \<open>Sample decoder and metric derivation\<close>

text \<open>
  The body of the \<^verbatim>\<open>for\<close> loop of \<^verbatim>\<open>parseEEGPayload\<close> up to the sign extension:
  \<^verbatim>\<open>(b0 << 16) | (b1 << 8) | b2\<close>, minus \<^verbatim>\<open>0x1000000\<close> when bit 23 is set.
\<close>

definition rawIntOf :: "int \<Rightarrow> int \<Rightarrow> int \<Rightarrow> int" where
  "rawIntOf b0 b1 b2 =
     (let rawInt = push_bit 16 b0 OR push_bit 8 b1 OR b2
      in if rawInt AND 0x800000 \<noteq> 0 then rawInt - 0x1000000 else rawInt)"

text \<open>
  The \<^verbatim>\<open>for\<close> loop, from index \<open>i\<close> on. \<^verbatim>\<open>Date.now()\<close> is the parameter \<open>now\<close>: \<open>now i\<close>
  is what the clock reads when the sample at offset \<open>i\<close> is stored.
\<close>

function parseEEGSamples :: "(nat \<Rightarrow> int) \<Rightarrow> byte list \<Rightarrow> nat \<Rightarrow> DeviceService \<Rightarrow> DeviceService" where
  "parseEEGSamples now payload i s =
     (if i < length payload then
        if i + 2 \<ge> length payload then s
        else
          let b0 = uint (payload ! i);
              b1 = uint (payload ! (i + 1));
              b2 = uint (payload ! (i + 2));
              rawInt = rawIntOf b0 b1 b2;
              uvValue = real_of_int rawInt * UV_SCALE
          in parseEEGSamples now payload (i + 3)
               (s\<lparr>latestData := (latestData s)\<lparr>raw := \<lparr>timestamp = now i, valueUv = uvValue\<rparr>\<rparr>,
                  rawSignalBuffer := rawSignalBuffer s @ [uvValue]\<rparr>)
      else s)"
  by pat_completeness auto
termination
  by (relation "measure (\<lambda>(now, payload, i, s). length payload - i)") auto

declare parseEEGSamples.simps [simp del]

text \<open>
  Step 5 of \<^verbatim>\<open>analyzeSignal\<close>, from the five band powers to the metrics.
  \<^verbatim>\<open>totalPower\<close> is computed and not used.
\<close>

definition deriveMetrics :: "FrequencyBands \<Rightarrow> AnalysisMetrics" where
  "deriveMetrics b =
     (let eps = 0.001;
          totalPower = delta b + theta b + alpha b + beta b + gamma b + eps;
          rawRelaxationRatio = alpha b / (beta b + theta b + eps);
          relaxation' = min 1 (max 0 (rawRelaxationRatio * 0.8));
          rawAttentionRatio = beta b / (alpha b + theta b + eps);
          attention' = min 1 (max 0 (rawAttentionRatio * 0.8));
          isMeditating' = (relaxation' > MEDITATION_THRESHOLD)
      in \<lparr>attention = attention', relaxation = relaxation', isMeditating = isMeditating'\<rparr>)"

text \<open>
  \<^verbatim>\<open>analyzeSignal\<close>. Steps 1 to 4 (detrending, the Hann window, the single-precision FFT
  and the averaging of bins into bands) are the parameter \<open>bandsOf\<close>: what is proved
  below holds whatever band powers they produce.
\<close>

definition analyzeSignal :: "(real list \<Rightarrow> FrequencyBands) \<Rightarrow> real list \<Rightarrow> DeviceService \<Rightarrow> DeviceService" where
  "analyzeSignal bandsOf data s =
     (let b = bandsOf data
      in s\<lparr>latestData := (latestData s)\<lparr>bands := b, metrics := deriveMetrics b\<rparr>\<rparr>)"

definition parseEEGPayload ::
  "(real list \<Rightarrow> FrequencyBands) \<Rightarrow> (nat \<Rightarrow> int) \<Rightarrow> byte list \<Rightarrow> DeviceService \<Rightarrow> DeviceService" where
  "parseEEGPayload bandsOf now payload s =
     (let s1 = parseEEGSamples now payload 0 s
      in if length (rawSignalBuffer s1) \<ge> FFT_SIZE then
           let windowData = sliceFrom (length (rawSignalBuffer s1) - FFT_SIZE) (rawSignalBuffer s1);
               s2 = analyzeSignal bandsOf windowData s1
           in if length (rawSignalBuffer s2) > 1000
              then s2\<lparr>rawSignalBuffer :=
                        sliceFrom (length (rawSignalBuffer s2) - 500) (rawSignalBuffer s2)\<rparr>
              else s2
         else s1)"

text \<open>
  \<^verbatim>\<open>processBinaryFrames\<close> on the object: the loop runs on a local copy of
  \<^verbatim>\<open>this.binaryBuffer\<close>, which is written back when the loop is left. \<open>parse\<close> is
  \<^verbatim>\<open>this.parseEEGPayload\<close>, that is \<open>parseEEGPayload bandsOf now\<close> for the spectral stage
  and the clock of the call.
\<close>

definition processBinaryFrames ::
  "(byte list \<Rightarrow> DeviceService \<Rightarrow> DeviceService) \<Rightarrow> DeviceService \<Rightarrow> DeviceService" where
  "processBinaryFrames parse s =
     (case processLoop parse (binaryBuffer s) s of
        (buffer, s') \<Rightarrow> s'\<lparr>binaryBuffer := buffer\<rparr>)"

text \<open>
  One turn of the \<^verbatim>\<open>while (true)\<close> loop of \<^verbatim>\<open>readLoop\<close> on a chunk that was read:
  \<^verbatim>\<open>this.appendBuffer(value); this.processBinaryFrames()\<close>. \<open>readChunks\<close> is the loop
  on the chunks the reader delivers, in order.
\<close>

definition readChunk ::
  "(byte list \<Rightarrow> DeviceService \<Rightarrow> DeviceService) \<Rightarrow> DeviceService \<Rightarrow> byte list \<Rightarrow> DeviceService" where
  "readChunk parse s chunk = processBinaryFrames parse (appendBuffer chunk s)"

definition readChunks ::
  "(byte list \<Rightarrow> DeviceService \<Rightarrow> DeviceService) \<Rightarrow> DeviceService \<Rightarrow> byte list list \<Rightarrow> DeviceService" where
  "readChunks parse s chunks = foldl (readChunk parse) s chunks"

text \<open>
  The sample decoder as the specification words it: the payload cut into groups of three
  octets, an incomplete last group left out, each group read as a big-endian
  two's-complement 24-bit number.
\<close>

fun groups3 :: "'a list \<Rightarrow> ('a \<times> 'a \<times> 'a) list" where
  "groups3 (a # b # c # rest) = (a, b, c) # groups3 rest"
| "groups3 _ = []"

definition signed24 :: "byte \<times> byte \<times> byte \<Rightarrow> int" where
  "signed24 g =
     (case g of (b0, b1, b2) \<Rightarrow>
        let u = 65536 * uint b0 + 256 * uint b1 + uint b2
        in if u \<ge> 2 ^ 23 then u - 2 ^ 24 else u)"

definition microvolts :: "byte list \<Rightarrow> real list" where
  "microvolts payload =
     map (\<lambda>g. real_of_int (signed24 g) * ((2.4 / 6 / (2 ^ 23 - 1)) * 1000000)) (groups3 payload)"

section \<open>Handshake encoder\<close>

text \<open>
  A string is a list of characters. \<^verbatim>\<open>replace(/[^0-9]/g, '')\<close> keeps the characters
  \<open>0\<close> to \<open>9\<close>; \<^verbatim>\<open>padEnd\<close>, \<^verbatim>\<open>slice(0, 6)\<close> and \<^verbatim>\<open>substring\<close> are as in JavaScript
  for the arguments they are given here.
\<close>

definition isDigit :: "char \<Rightarrow> bool" where
  "isDigit c = (48 \<le> (of_char c :: nat) \<and> (of_char c :: nat) \<le> 57)"

definition padEnd :: "nat \<Rightarrow> char \<Rightarrow> string \<Rightarrow> string" where
  "padEnd n c str = str @ replicate (n - length str) c"

definition substring :: "nat \<Rightarrow> nat \<Rightarrow> string \<Rightarrow> string" where
  "substring a b str = take (b - a) (drop a str)"

definition cleanIdOf :: "string \<Rightarrow> string" where
  "cleanIdOf deviceIdStr = take 6 (padEnd 6 (CHR ''0'') (filter isDigit deviceIdStr))"

text \<open>
  \<^verbatim>\<open>parseInt(str, 16)\<close> on a string without leading white space, sign or \<^verbatim>\<open>0x\<close>: the
  value of the longest prefix of hexadecimal digits, \<open>None\<close> (for \<^verbatim>\<open>NaN\<close>) when there is
  none.
\<close>

definition hexValue :: "char \<Rightarrow> int option" where
  "hexValue c =
     (let n = (of_char c :: nat)
      in if 48 \<le> n \<and> n \<le> 57 then Some (int n - 48)
         else if 97 \<le> n \<and> n \<le> 102 then Some (int n - 87)
         else if 65 \<le> n \<and> n \<le> 70 then Some (int n - 55)
         else None)"

fun hexPrefix :: "string \<Rightarrow> int list" where
  "hexPrefix [] = []"
| "hexPrefix (c # cs) = (case hexValue c of None \<Rightarrow> [] | Some d \<Rightarrow> d # hexPrefix cs)"

definition parseInt16 :: "string \<Rightarrow> int option" where
  "parseInt16 str =
     (case hexPrefix str of
        [] \<Rightarrow> None
      | d # ds \<Rightarrow> Some (foldl (\<lambda>n k. 16 * n + k) 0 (d # ds)))"

text \<open>
  A \<^verbatim>\<open>NaN\<close> in the payload would count as 0 both in the bit operations of \<^verbatim>\<open>crc8\<close> and
  in the conversion to \<^verbatim>\<open>Uint8Array\<close>, which keeps the low eight bits of a number.
\<close>

definition numberOr0 :: "int option \<Rightarrow> int" where
  "numberOr0 v = (case v of None \<Rightarrow> 0 | Some n \<Rightarrow> n)"

definition handshakeFrame :: "string \<Rightarrow> byte list" where
  "handshakeFrame deviceIdStr =
     (let cleanId = cleanIdOf deviceIdStr;
          id1 = numberOr0 (parseInt16 (substring 0 2 cleanId));
          id2 = numberOr0 (parseInt16 (substring 2 4 cleanId));
          id3 = numberOr0 (parseInt16 (substring 4 6 cleanId));
          payload = [0xB0, 0xB0, 0x03, id1, id2, id3];
          crc = crc8 payload
      in map word_of_int ([0xAA] @ payload @ [crc, 0xBB]))"

text \<open>
  \<^verbatim>\<open>sendHandshake\<close>: nothing is written when the port is missing or not writable
  (\<open>writable = False\<close>), otherwise the frame is.
\<close>

definition sendHandshake :: "bool \<Rightarrow> string \<Rightarrow> byte list option" where
  "sendHandshake writable deviceIdStr =
     (if \<not> writable then None else Some (handshakeFrame deviceIdStr))"

text \<open>The digits of the identifier as the specification words them.\<close>

definition digitValues :: "string \<Rightarrow> int list" where
  "digitValues deviceIdStr =
     map (\<lambda>c. int (of_char c) - 48) (take 6 (filter isDigit deviceIdStr @ replicate 6 (CHR ''0'')))"

section \<open>Simulation engine\<close>

text \<open>
  \<^verbatim>\<open>updateSimulation\<close>, one tick. \<open>rnd k\<close> is the result of the \<open>k\<close>-th call of
  \<^verbatim>\<open>Math.random()\<close> in the tick and \<open>clock k\<close> that of the \<open>k\<close>-th call of
  \<^verbatim>\<open>Date.now()\<close>. \<^verbatim>\<open>x || 0.5\<close> is \<open>0.5\<close> when \<open>x\<close> is 0.
\<close>

definition updateSimulation :: "(nat \<Rightarrow> real) \<Rightarrow> (nat \<Rightarrow> int) \<Rightarrow> DeviceService \<Rightarrow> DeviceService" where
  "updateSimulation rnd clock s =
     (let agitationLevel' = max 0 (agitationLevel s * 0.96);
          normalizedAgitation = min (agitationLevel' / 20) 1;
          targetRelaxation = 1 - normalizedAgitation;
          prevRelaxation = (if relaxation (metrics (latestData s)) = 0 then 0.5
                            else relaxation (metrics (latestData s)));
          relaxation' = prevRelaxation * 0.85 + targetRelaxation * 0.15;
          attention' = 1 - relaxation';
          isMeditating' = (relaxation' > MEDITATION_THRESHOLD);
          alpha' = (relaxation' * 40) + 10 + (rnd 0 * 5);
          beta' = (attention' * 30) + 5 + (rnd 1 * 5);
          theta' = 10 + rnd 2 * 5;
          delta' = 5 + rnd 3 * 5;
          gamma' = (attention' * 20) + rnd 4 * 5;
          t = real_of_int (clock 0) / 1000;
          rawValue = (if relaxation' > 0.7
                      then sin (t * 10 * pi * 2) * 50 + (rnd 5 * 8)
                      else sin (t * 22 * pi * 2) * 20 + (rnd 5 * 40 - 20) + (sin (t * 4) * 10))
      in s\<lparr>agitationLevel := agitationLevel',
           latestData :=
             \<lparr>raw = \<lparr>timestamp = clock 1, valueUv = rawValue\<rparr>,
              bands = \<lparr>delta = delta', theta = theta', alpha = alpha', beta = beta', gamma = gamma'\<rparr>,
              metrics = \<lparr>attention = attention', relaxation = relaxation',
                         isMeditating = isMeditating'\<rparr>\<rparr>\<rparr>)"

text \<open>
  \<open>n\<close> ticks of the 100 ms timer with no motion event in between: \<open>rnd k\<close> and
  \<open>clock k\<close> are the random numbers and the clock of tick \<open>k\<close>.
\<close>

primrec simulate :: "(nat \<Rightarrow> nat \<Rightarrow> real) \<Rightarrow> (nat \<Rightarrow> nat \<Rightarrow> int) \<Rightarrow> nat \<Rightarrow> DeviceService \<Rightarrow> DeviceService" where
  "simulate rnd clock 0 s = s"
| "simulate rnd clock (Suc n) s = updateSimulation (rnd n) (clock n) (simulate rnd clock n s)"

section \<open>The checksum engine computes the Maxim/Dallas CRC-8\<close>

lemma uint_byte_mod: "uint (w :: byte) mod 256 = uint w"
  using uint_lt2p [of w] by simp

lemma uint_drop_byte: "uint (drop_bit n (w :: byte)) = drop_bit n (uint w)"
  by (simp add: unsigned_drop_bit_eq take_bit_eq_mod uint_byte_mod)

lemma mix_bit: "((uint c XOR uint b) AND 1 \<noteq> 0) = bit ((c :: byte) XOR b) 0"
proof -
  have "(uint c XOR uint b) AND 1 = uint ((c XOR b) AND 1)"
    by (simp add: uint_and uint_xor)
  also have "\<dots> \<noteq> 0 \<longleftrightarrow> (c XOR b) AND 1 \<noteq> 0"
    by (simp add: uint_0_iff)
  also have "\<dots> \<longleftrightarrow> bit (c XOR b) 0"
    by (simp add: and_one_eq bit_0 mod_2_eq_odd)
  finally show ?thesis .
qed

lemma rounds_refine:
  "crc8_rounds n (uint c) (uint b) XOR drop_bit n (uint b) = uint (maxim_shift n (c XOR b))"
proof (induction n arbitrary: c b)
  case 0
  show ?case by (simp add: uint_xor)
next
  case (Suc n)
  define c' where "c' = (if bit (c XOR b) 0 then drop_bit 1 c XOR 0x8C else drop_bit 1 c)"
  define b' where "b' = drop_bit 1 b"
  have step: "crc8_rounds (Suc n) (uint c) (uint b) = crc8_rounds n (uint c') (uint b')"
    using mix_bit [of c b] by (simp add: c'_def b'_def Let_def uint_drop_byte uint_xor)
  have shift: "drop_bit (Suc n) (uint b) = drop_bit n (uint b')"
    unfolding b'_def uint_drop_byte by simp
  have reg: "c' XOR b' = (if bit (c XOR b) 0 then drop_bit 1 (c XOR b) XOR 0x8C else drop_bit 1 (c XOR b))"
    by (simp add: c'_def b'_def ac_simps)
  have "maxim_shift (Suc n) (c XOR b) = maxim_shift n (c' XOR b')"
    by (simp add: reg)
  with Suc.IH [of c' b'] step shift show ?case by simp
qed

lemma drop8: "drop_bit 8 (uint (b::byte)) = 0"
  using uint_lt2p [of b] by (simp add: drop_bit_eq_div)

lemma byte_refine: "crc8_rounds 8 (uint c) (uint b) = uint (maxim_shift 8 (c XOR b))"
  using rounds_refine [of 8 c b] by (simp add: drop8)

lemma foldl_refine:
  "foldl (\<lambda>crc byte. crc8_rounds 8 crc byte) (uint c) (map uint bs)
     = uint (foldl (\<lambda>reg b. maxim_shift 8 (reg XOR b)) c bs)"
  by (induction bs arbitrary: c) (simp_all add: byte_refine)

lemma crc8_refine: "crc8 (map uint bs) = uint (maxim_crc8 bs)"
  using foldl_refine [of 0 bs] by (simp add: crc8_def maxim_crc8_def)

lemma crc8_octet: "uint (word_of_int (crc8 (map uint bs)) :: byte) = crc8 (map uint (bs :: byte list))"
  unfolding crc8_refine by simp

(* injectivity *)







lemma indexOf_None: "v \<notin> set xs \<Longrightarrow> indexOf xs v = None"
  by (induction xs) auto

lemma indexOf_first: "v \<notin> set pre \<Longrightarrow> indexOf (pre @ v # xs) v = Some (length pre)"
  by (induction pre) auto

lemma unat_len: "n < 256 \<Longrightarrow> unat (word_of_nat n :: byte) = n"
  by (simp add: unat_of_nat take_bit_eq_mod)

lemma take3: "take (3 + n) (a # b # c # xs) = a # b # c # take n xs"
  by (simp add: numeral_3_eq_3)

lemma loopBody_shape:
  assumes len: "length payload = unat lenb"
  shows "loopBody parse (0xAA # func # addr # lenb # payload @ crc # e # rest) s =
     (if e \<noteq> 0xBB then Continue (func # addr # lenb # payload @ crc # e # rest) s
      else if uint crc = crc8 (map uint (func # addr # lenb # payload))
        then Continue rest (if func = 0xF0 then parse payload s else s)
        else Continue (func # addr # lenb # payload @ crc # e # rest) s)"
proof -
  define buffer where "buffer = 0xAA # func # addr # lenb # payload @ crc # e # rest"
  have l6: "length buffer \<ge> 6" "\<not> length buffer < 4" "\<not> length buffer < 4 + unat lenb + 2"
    by (simp_all add: buffer_def len)
  have ix: "indexOf buffer 0xAA = Some 0"
    by (simp add: buffer_def)
  have hd: "buffer ! 1 = func" "buffer ! 2 = addr" "buffer ! 3 = lenb"
    by (simp_all add: buffer_def numeral_2_eq_2 numeral_3_eq_3)
  have e: "buffer ! (4 + unat lenb + 2 - 1) = e"
    by (simp add: buffer_def nth_append len [symmetric] numeral_2_eq_2)
  have c: "buffer ! (4 + unat lenb + 2 - 2) = crc"
    by (simp add: buffer_def nth_append len [symmetric])
  have src: "slice 1 (4 + unat lenb + 2 - 2) buffer = func # addr # lenb # payload"
    by (simp add: buffer_def slice_def len [symmetric] take3)
  have pl: "slice 4 (4 + unat lenb) buffer = payload"
    by (simp add: buffer_def slice_def len [symmetric])
  have d1: "sliceFrom 1 buffer = func # addr # lenb # payload @ crc # e # rest"
    by (simp add: buffer_def sliceFrom_def)
  have dp: "sliceFrom (4 + unat lenb + 2) buffer = rest"
    by (simp add: buffer_def sliceFrom_def len [symmetric] eval_nat_numeral)
  have "loopBody parse buffer s =
     (if e \<noteq> 0xBB then Continue (sliceFrom 1 buffer) s
      else if uint crc = crc8 (map uint (func # addr # lenb # payload))
        then Continue rest (if func = 0xF0 then parse payload s else s)
        else Continue (sliceFrom 1 buffer) s)"
    using l6 ix hd e c src pl dp by (simp add: loopBody_def Let_def del: list.map)
  then have "loopBody parse buffer s =
     (if e \<noteq> 0xBB then Continue (func # addr # lenb # payload @ crc # e # rest) s
      else if uint crc = crc8 (map uint (func # addr # lenb # payload))
        then Continue rest (if func = 0xF0 then parse payload s else s)
        else Continue (func # addr # lenb # payload @ crc # e # rest) s)"
    by (simp only: d1)
  then show ?thesis
    by (simp only: buffer_def)
qed

text \<open>
  C2. \<open>crc8\<close> is a total function of the octet sequence: it is 0 on the empty sequence,
  each further octet runs the eight rounds on the checksum so far, a round shifts the
  checksum right and XORs in \<open>0x8C\<close> when the low bit of checksum XOR octet is set, the
  result is an octet, and it is the reference Maxim/Dallas CRC-8 of the sequence; on the
  check input \<open>123456789\<close> it is \<open>0xA1\<close> and on the 1-Wire ROM code
  \<open>02 1C B8 01 00 00 00\<close> it is \<open>0xA2\<close>.
\<close>

theorem crc8_is_maxim_dallas:
  "crc8 [] = 0
   \<and> crc8 (map uint (bs @ [b])) = crc8_rounds 8 (crc8 (map uint bs)) (uint b)
   \<and> crc8_rounds (Suc n) crc byte =
       crc8_rounds n (if odd (crc XOR byte) then (crc div 2) XOR 0x8C else crc div 2) (byte div 2)
   \<and> crc8 (map uint bs) = uint (maxim_crc8 bs)
   \<and> 0 \<le> crc8 (map uint bs) \<and> crc8 (map uint bs) < 256
   \<and> crc8 (map uint [0x31, 0x32, 0x33, 0x34, 0x35, 0x36, 0x37, 0x38, 0x39 :: byte]) = 0xA1
   \<and> crc8 (map uint [0x02, 0x1C, 0xB8, 0x01, 0x00, 0x00, 0x00 :: byte]) = 0xA2"
proof -
  have e: "crc8 [] = 0"
    by (simp add: crc8_def)
  have a: "crc8 (map uint (bs @ [b])) = crc8_rounds 8 (crc8 (map uint bs)) (uint b)"
    by (simp add: crc8_def)
  have r: "crc8_rounds (Suc n) crc byte =
       crc8_rounds n (if odd (crc XOR byte) then (crc div 2) XOR 0x8C else crc div 2) (byte div 2)"
    by (simp add: Let_def and_one_eq mod_2_eq_odd drop_bit_eq_div)
  have m: "crc8 (map uint bs) = uint (maxim_crc8 bs)"
    by (rule crc8_refine)
  have o: "0 \<le> crc8 (map uint bs) \<and> crc8 (map uint bs) < 256"
    unfolding m using uint_lt2p [of "maxim_crc8 bs"] by simp
  have v1: "crc8 (map uint [0x31, 0x32, 0x33, 0x34, 0x35, 0x36, 0x37, 0x38, 0x39 :: byte]) = 0xA1"
    by code_simp
  have v2: "crc8 (map uint [0x02, 0x1C, 0xB8, 0x01, 0x00, 0x00, 0x00 :: byte]) = 0xA2"
    by code_simp
  from e a r m o v1 v2 show ?thesis by blast
qed

section \<open>The decode pass terminates\<close>

lemma indexOf_Some_less: "indexOf xs v = Some i \<Longrightarrow> i < length xs"
  by (induction xs arbitrary: i) (auto split: if_splits)

lemma loopBody_Continue_drop:
  assumes "loopBody parse buffer s = Continue buffer' s'"
  shows "\<exists>k. 0 < k \<and> k \<le> length buffer \<and> buffer' = drop k buffer"
proof -
  have k: "\<not> length buffer < 6 + unat (buffer ! 3)
      \<Longrightarrow> \<exists>k>0. k \<le> length buffer \<and> drop (6 + unat (buffer ! 3)) buffer = drop k buffer"
    by (rule exI [of _ "6 + unat (buffer ! 3)"]) simp
  from assms show ?thesis
    by (auto simp: loopBody_def sliceFrom_def Let_def k dest!: indexOf_Some_less
        split: if_splits option.splits intro: less_imp_le)
qed

lemma loopBody_Continue_shorter:
  assumes "loopBody parse buffer s = Continue buffer' s'"
  shows "length buffer' < length buffer"
  using loopBody_Continue_drop [OF assms] by auto

lemma loopBody_Break_cases:
  assumes "loopBody parse buffer s = Break buffer' s'"
  shows "s' = s \<and> (buffer' = buffer \<or> buffer' = [])"
  using assms
  by (auto simp: loopBody_def Let_def split: if_splits option.splits)

lemma processFuel_enough:
  "length buffer < n \<Longrightarrow> processFuel n parse buffer s = Some (processLoop parse buffer s)"
proof (induction n arbitrary: buffer s)
  case 0
  then show ?case by simp
next
  case (Suc n)
  show ?case
  proof (cases "loopBody parse buffer s")
    case (Break b' s')
    then show ?thesis by (simp add: processLoop.simps [of parse buffer s])
  next
    case (Continue b' s')
    from loopBody_Continue_shorter [OF Continue] Suc.prems have "length b' < n" by simp
    from Suc.IH [OF this] Continue show ?thesis
      by (simp add: processLoop.simps [of parse buffer s])
  qed
qed

text \<open>
  C4. One pass of the loop of \<open>processBinaryFrames\<close> either leaves the loop, with the
  buffer as it was or emptied and the rest of the state untouched, or goes round again
  with a strictly shorter buffer, a proper suffix of the old one. It leaves at once when
  fewer than 6 octets are buffered, and when there are at least 6 and none is the START
  octet. Hence the loop is left after at most \<open>length buffer + 1\<close> passes, whatever
  the buffer holds.
\<close>

theorem decode_pass_terminates:
  "(\<forall>buffer' s'. loopBody parse buffer s = Continue buffer' s'
       \<longrightarrow> length buffer' < length buffer \<and> (\<exists>k>0. buffer' = drop k buffer))
   \<and> (\<forall>buffer' s'. loopBody parse buffer s = Break buffer' s'
       \<longrightarrow> s' = s \<and> (buffer' = buffer \<or> buffer' = []))
   \<and> (length buffer < 6 \<longrightarrow> loopBody parse buffer s = Break buffer s)
   \<and> (length buffer \<ge> 6 \<and> 0xAA \<notin> set buffer \<longrightarrow> loopBody parse buffer s = Break [] s)
   \<and> processFuel (Suc (length buffer)) parse buffer s = Some (processLoop parse buffer s)"
proof -
  have c: "\<forall>buffer' s'. loopBody parse buffer s = Continue buffer' s'
       \<longrightarrow> length buffer' < length buffer \<and> (\<exists>k>0. buffer' = drop k buffer)"
    using loopBody_Continue_drop [of parse buffer s] loopBody_Continue_shorter [of parse buffer s]
    by blast
  have b: "\<forall>buffer' s'. loopBody parse buffer s = Break buffer' s'
       \<longrightarrow> s' = s \<and> (buffer' = buffer \<or> buffer' = [])"
    using loopBody_Break_cases [of parse buffer s] by blast
  have s6: "length buffer < 6 \<longrightarrow> loopBody parse buffer s = Break buffer s"
    by (simp add: loopBody_def)
  have n: "length buffer \<ge> 6 \<and> 0xAA \<notin> set buffer \<longrightarrow> loopBody parse buffer s = Break [] s"
    by (simp add: loopBody_def indexOf_None)
  have f: "processFuel (Suc (length buffer)) parse buffer s = Some (processLoop parse buffer s)"
    by (rule processFuel_enough) simp
  from c b s6 n f show ?thesis by blast
qed

theorem decode_pass_terminates_witness:
  "loopBody record_payload [0x01, 0xAA, 0x02, 0x03, 0x04, 0x05, 0x06] []
     = Continue [0xAA, 0x02, 0x03, 0x04, 0x05, 0x06] []
   \<and> length [0xAA, 0x02, 0x03, 0x04, 0x05, 0x06 :: byte]
       < length [0x01, 0xAA, 0x02, 0x03, 0x04, 0x05, 0x06 :: byte]
   \<and> processFuel (Suc (length [0x01, 0xAA, 0x02, 0x03, 0x04, 0x05, 0x06 :: byte]))
         record_payload [0x01, 0xAA, 0x02, 0x03, 0x04, 0x05, 0x06] []
       = Some ([0xAA, 0x02, 0x03, 0x04, 0x05, 0x06], [])"
proof -
  have step: "loopBody record_payload [0x01, 0xAA, 0x02, 0x03, 0x04, 0x05, 0x06] []
      = Continue [0xAA, 0x02, 0x03, 0x04, 0x05, 0x06] []"
    by code_simp
  have run: "processLoop record_payload [0x01, 0xAA, 0x02, 0x03, 0x04, 0x05, 0x06] []
      = ([0xAA, 0x02, 0x03, 0x04, 0x05, 0x06], [])"
    by code_simp
  from decode_pass_terminates [of record_payload "[0x01, 0xAA, 0x02, 0x03, 0x04, 0x05, 0x06]" "[]"]
    step run
  show ?thesis by simp
qed

section \<open>A data frame is decoded once\<close>

lemma frame_of_shape:
  "frame_of func addr payload =
     0xAA # func # addr # word_of_nat (length payload) # payload @ [frame_crc func addr payload, 0xBB]"
  by (simp add: frame_of_def frame_with_crc_def)

lemma frame_crc_uint:
  "uint (frame_crc func addr payload)
     = crc8 (map uint (func # addr # word_of_nat (length payload) # payload))"
  unfolding frame_crc_def using crc8_octet [of "func # addr # word_of_nat (length payload) # payload"]
  by simp

lemma loopBody_frame_of:
  assumes "length payload < 256"
  shows "loopBody parse (frame_of func addr payload @ rest) s
       = Continue rest (if func = 0xF0 then parse payload s else s)"
proof -
  have len: "length payload = unat (word_of_nat (length payload) :: byte)"
    using assms by (simp add: unat_len)
  show ?thesis
    using loopBody_shape [OF len, of parse func addr "frame_crc func addr payload" "0xBB" rest s]
    by (simp add: frame_of_shape frame_crc_uint)
qed

lemma indexOf_hd: "xs \<noteq> [] \<Longrightarrow> xs ! 0 = v \<Longrightarrow> indexOf xs v = Some 0"
  by (cases xs) auto

lemma loopBody_prefix:
  assumes len: "length payload < 256"
    and split: "frame_of func addr payload = p @ q" and q: "q \<noteq> []"
  shows "loopBody parse p s = Break p s"
proof (cases "length p < 6")
  case True
  then show ?thesis by (simp add: loopBody_def)
next
  case False
  have nth: "p ! i = frame_of func addr payload ! i" if "i < length p" for i
    using that by (simp add: split nth_append)
  from False have l0: "0 < length p" and l3: "3 < length p"
    by linarith+
  have p0: "p ! 0 = 0xAA" and p3: "p ! 3 = word_of_nat (length payload)"
    using nth [OF l0] nth [OF l3] by (simp_all add: frame_of_shape numeral_3_eq_3)
  have ix: "indexOf p 0xAA = Some 0"
    using False p0 by (intro indexOf_hd) auto
  have "length (frame_of func addr payload) = length payload + 6"
    by (simp add: frame_of_shape)
  with split q have short: "length p < 4 + length payload + 2"
    by (cases q) (auto dest: arg_cong [where f = length])
  show ?thesis
    using False short by (simp add: loopBody_def ix p3 unat_len [OF len] Let_def)
qed

lemma processLoop_Break: "loopBody parse buffer s = Break b' s' \<Longrightarrow> processLoop parse buffer s = (b', s')"
  by (simp add: processLoop.simps [of parse buffer s])

lemma processLoop_Continue:
  "loopBody parse buffer s = Continue b' s' \<Longrightarrow> processLoop parse buffer s = processLoop parse b' s'"
  by (simp add: processLoop.simps [of parse buffer s])

lemma processLoop_short: "length buffer < 6 \<Longrightarrow> processLoop parse buffer s = (buffer, s)"
  by (rule processLoop_Break) (simp add: loopBody_def)

lemma processLoop_prefix:
  assumes "length payload < 256" "frame_of func addr payload = p @ q" "q \<noteq> []"
  shows "processLoop parse p s = (p, s)"
  by (rule processLoop_Break) (rule loopBody_prefix [OF assms])

lemma processLoop_frame_of:
  assumes "length payload < 256"
  shows "processLoop parse (frame_of func addr payload @ rest) s
       = processLoop parse rest (if func = 0xF0 then parse payload s else s)"
  by (rule processLoop_Continue) (rule loopBody_frame_of [OF assms])

section \<open>Frames that carry no samples\<close>

lemma processLoop_Nil: "processLoop parse [] s = ([], s)"
  by (simp add: processLoop_short)

text \<open>
  C10. A well-formed frame (right END octet, right CRC) whose FUNCTION octet is not
  \<open>0xF0\<close> is consumed whole by one pass of the loop, which hands nothing to the sample
  decoder and leaves the rest of the state as it was; decoding goes on with what follows
  the frame. When the accumulator holds exactly such a frame, \<open>processBinaryFrames\<close>
  empties it and changes nothing else: the sample window and the snapshot are what they
  were.
\<close>

theorem non_data_frame_consumed_silently:
  assumes "length payload < 256" and "func \<noteq> 0xF0"
  shows "loopBody parse (frame_of func addr payload @ rest) s = Continue rest s
       \<and> processLoop parse (frame_of func addr payload @ rest) s = processLoop parse rest s
       \<and> processLoop parse (frame_of func addr payload) s = ([], s)
       \<and> (binaryBuffer d = frame_of func addr payload \<longrightarrow>
            processBinaryFrames parseEEG d = d\<lparr>binaryBuffer := []\<rparr>
            \<and> binaryBuffer (processBinaryFrames parseEEG d) = []
            \<and> rawSignalBuffer (processBinaryFrames parseEEG d) = rawSignalBuffer d
            \<and> latestData (processBinaryFrames parseEEG d) = latestData d)"
proof -
  have a: "loopBody parse (frame_of func addr payload @ rest) s = Continue rest s"
    for parse :: "byte list \<Rightarrow> 't \<Rightarrow> 't" and rest s
    using loopBody_frame_of [OF assms(1), of parse func addr rest s] assms(2) by simp
  have b: "processLoop parse (frame_of func addr payload @ rest) s = processLoop parse rest s"
    for parse :: "byte list \<Rightarrow> 't \<Rightarrow> 't" and rest s
    by (rule processLoop_Continue) (rule a)
  have c: "processLoop parse (frame_of func addr payload) s = ([], s)"
    for parse :: "byte list \<Rightarrow> 't \<Rightarrow> 't" and s
    using b [of parse "[]" s] by (simp add: processLoop_Nil)
  have d: "processBinaryFrames parseEEG d = d\<lparr>binaryBuffer := []\<rparr>"
    if "binaryBuffer d = frame_of func addr payload"
    using that c [of parseEEG d] by (simp add: processBinaryFrames_def)
  from a [of parse rest s] b [of parse rest s] c [of parse s] d show ?thesis
    by simp
qed

theorem non_data_frame_consumed_silently_witness:
  "length [0x12, 0x34, 0x56 :: byte] < 256
   \<and> (0xB0 :: byte) \<noteq> 0xF0
   \<and> frame_of 0xB0 0xB0 [0x12, 0x34, 0x56] = [0xAA, 0xB0, 0xB0, 0x03, 0x12, 0x34, 0x56, 0xD5, 0xBB]
   \<and> loopBody record_payload ([0xAA, 0xB0, 0xB0, 0x03, 0x12, 0x34, 0x56, 0xD5, 0xBB] @ [0x01]) []
       = Continue [0x01] []
   \<and> processLoop record_payload [0xAA, 0xB0, 0xB0, 0x03, 0x12, 0x34, 0x56, 0xD5, 0xBB] [] = ([], [])
   \<and> processBinaryFrames (parseEEGPayload (\<lambda>w. bands zeroSnapshot) (\<lambda>i. 0))
         (newDeviceService\<lparr>binaryBuffer := [0xAA, 0xB0, 0xB0, 0x03, 0x12, 0x34, 0x56, 0xD5, 0xBB]\<rparr>)
       = newDeviceService"
proof -
  have l: "length [0x12, 0x34, 0x56 :: byte] < 256"
    by simp
  have f: "(0xB0 :: byte) \<noteq> 0xF0"
    by simp
  have fr: "frame_of 0xB0 0xB0 [0x12, 0x34, 0x56] = [0xAA, 0xB0, 0xB0, 0x03, 0x12, 0x34, 0x56, 0xD5, 0xBB]"
    by code_simp
  from non_data_frame_consumed_silently [OF l f, of record_payload "0xB0" "[0x01]" "[]"
      "newDeviceService\<lparr>binaryBuffer := [0xAA, 0xB0, 0xB0, 0x03, 0x12, 0x34, 0x56, 0xD5, 0xBB]\<rparr>"
      "parseEEGPayload (\<lambda>w. bands zeroSnapshot) (\<lambda>i. 0)"] l f fr
  show ?thesis
    by (simp add: newDeviceService_def)
qed

section \<open>Malformed frames and noise\<close>

lemma loopBody_noise:
  assumes "0xAA \<notin> set noise"
  shows "loopBody parse noise s = (if length noise \<ge> 6 then Break [] s else Break noise s)"
  using assms by (simp add: loopBody_def indexOf_None)

lemma processLoop_noise:
  assumes "0xAA \<notin> set noise"
  shows "processLoop parse noise s = (if length noise \<ge> 6 then [] else noise, s)"
  using loopBody_noise [OF assms, of parse s] by (simp add: processLoop_Break)












section \<open>A data frame is decoded once\<close>

lemma loopBody_skip:
  assumes clean: "0xAA \<notin> set pre" and ne: "pre \<noteq> []" and long: "length (pre @ 0xAA # b) \<ge> 6"
  shows "loopBody parse (pre @ 0xAA # b) s = Continue (0xAA # b) s"
  using long ne by (simp add: loopBody_def indexOf_first [OF clean] sliceFrom_def)

lemma processLoop_skip:
  assumes clean: "0xAA \<notin> set pre" and long: "length (pre @ 0xAA # b) \<ge> 6"
  shows "processLoop parse (pre @ 0xAA # b) s = processLoop parse (0xAA # b) s"
proof (cases "pre = []")
  case True
  then show ?thesis by simp
next
  case False
  show ?thesis
    by (rule processLoop_Continue) (rule loopBody_skip [OF clean False long])
qed

lemma processLoop_pending:
  assumes len: "length payload < 256" and clean: "0xAA \<notin> set pre"
    and split: "frame_of func addr payload = q @ r" and r: "r \<noteq> []"
  shows "\<exists>pre'. 0xAA \<notin> set pre' \<and> processLoop parse (pre @ q) s = (pre' @ q, s)"
proof (cases "length (pre @ q) < 6")
  case True
  then have "processLoop parse (pre @ q) s = (pre @ q, s)"
    by (rule processLoop_short)
  with clean show ?thesis by blast
next
  case long: False
  show ?thesis
  proof (cases q)
    case Nil
    with long clean have "processLoop parse (pre @ q) s = ([] @ q, s)"
      by (simp add: processLoop_noise)
    then show ?thesis by (intro exI [of _ "[]"]) simp
  next
    case (Cons a q')
    with split have a: "a = 0xAA"
      by (simp add: frame_of_shape)
    have "processLoop parse (pre @ q) s = processLoop parse q s"
      using processLoop_skip [OF clean, of q' parse s] long by (simp add: Cons a)
    also have "\<dots> = ([] @ q, s)"
      using processLoop_prefix [OF len split r] by simp
    finally show ?thesis by (intro exI [of _ "[]"]) simp
  qed
qed

lemma processLoop_complete:
  assumes len: "length payload < 256" and clean: "0xAA \<notin> set pre"
  shows "processLoop parse (pre @ frame_of func addr payload) s
       = ([], if func = 0xF0 then parse payload s else s)"
proof -
  have "processLoop parse (pre @ frame_of func addr payload) s
      = processLoop parse (frame_of func addr payload) s"
    using processLoop_skip [OF clean, of _ parse s] by (simp add: frame_of_shape)
  also have "\<dots> = processLoop parse [] (if func = 0xF0 then parse payload s else s)"
    using processLoop_frame_of [OF len, of parse func addr "[]" s] by simp
  finally show ?thesis by (simp add: processLoop_Nil)
qed

lemma readChunk_unfold:
  "readChunk parse s chunk =
     (case processLoop parse (binaryBuffer s @ chunk) (s\<lparr>binaryBuffer := binaryBuffer s @ chunk\<rparr>) of
        (buffer, s') \<Rightarrow> s'\<lparr>binaryBuffer := buffer\<rparr>)"
  by (simp add: readChunk_def processBinaryFrames_def appendBuffer_def)

lemma readChunks_Cons: "readChunks parse s (c # cs) = readChunks parse (readChunk parse s c) cs"
  by (simp add: readChunks_def)

lemma readChunks_empty:
  "concat cs = [] \<Longrightarrow> binaryBuffer s = [] \<Longrightarrow> readChunks parse s cs = s"
proof (induction cs)
  case Nil
  then show ?case by (simp add: readChunks_def)
next
  case (Cons c cs)
  then have "readChunk parse s c = s"
    by (simp add: readChunk_unfold processLoop_Nil)
  with Cons show ?case by (simp add: readChunks_Cons)
qed

lemma readChunks_frame:
  assumes len: "length payload < 256"
    and indep: "\<forall>p t b. parse p (t\<lparr>binaryBuffer := b\<rparr>) = (parse p t)\<lparr>binaryBuffer := b\<rparr>"
  shows "0xAA \<notin> set pre \<Longrightarrow> binaryBuffer s = pre @ q
     \<Longrightarrow> q @ concat chunks = frame_of 0xF0 addr payload \<Longrightarrow> concat chunks \<noteq> []
     \<Longrightarrow> readChunks parse s chunks = (parse payload s)\<lparr>binaryBuffer := []\<rparr>"
proof (induction chunks arbitrary: s pre q)
  case Nil
  then show ?case by simp
next
  case (Cons c cs)
  define s1 where "s1 = s\<lparr>binaryBuffer := binaryBuffer s @ c\<rparr>"
  show ?case
  proof (cases "concat cs = []")
    case True
    with Cons.prems have full: "q @ c = frame_of 0xF0 addr payload" by simp
    have "processLoop parse (binaryBuffer s @ c) s1 = ([], parse payload s1)"
      using processLoop_complete [OF len Cons.prems(1), of parse "0xF0" addr s1]
      by (simp add: Cons.prems(2) full)
    then have "readChunk parse s c = (parse payload s1)\<lparr>binaryBuffer := []\<rparr>"
      by (simp add: readChunk_unfold s1_def)
    also have "\<dots> = (parse payload s)\<lparr>binaryBuffer := []\<rparr>"
      by (simp add: s1_def indep)
    finally have rc: "readChunk parse s c = (parse payload s)\<lparr>binaryBuffer := []\<rparr>" .
    show ?thesis
      using True by (simp add: readChunks_Cons rc readChunks_empty)
  next
    case False
    from Cons.prems have split: "frame_of 0xF0 addr payload = (q @ c) @ concat cs" by simp
    from processLoop_pending [OF len Cons.prems(1) split False, of parse s1]
    obtain pre' where clean': "0xAA \<notin> set pre'"
      and pl: "processLoop parse (pre @ q @ c) s1 = (pre' @ q @ c, s1)"
      by auto
    have rc: "readChunk parse s c = s\<lparr>binaryBuffer := pre' @ q @ c\<rparr>"
      using pl by (simp add: readChunk_unfold s1_def Cons.prems(2))
    have "readChunks parse (s\<lparr>binaryBuffer := pre' @ q @ c\<rparr>) cs
        = (parse payload (s\<lparr>binaryBuffer := pre' @ q @ c\<rparr>))\<lparr>binaryBuffer := []\<rparr>"
      using clean' Cons.prems False
      by (intro Cons.IH [of pre' _ "q @ c"]) simp_all
    then show ?thesis
      by (simp add: readChunks_Cons rc indep)
  qed
qed

lemma parseEEGSamples_step:
  assumes "i + 2 < length payload"
  shows "parseEEGSamples now payload i u =
     parseEEGSamples now payload (i + 3)
       (u\<lparr>latestData := (latestData u)\<lparr>raw := \<lparr>timestamp = now i,
            valueUv = real_of_int (rawIntOf (uint (payload ! i)) (uint (payload ! (i + 1)))
              (uint (payload ! (i + 2)))) * UV_SCALE\<rparr>\<rparr>,
          rawSignalBuffer := rawSignalBuffer u @
            [real_of_int (rawIntOf (uint (payload ! i)) (uint (payload ! (i + 1)))
              (uint (payload ! (i + 2)))) * UV_SCALE]\<rparr>)"
  using assms by (subst parseEEGSamples.simps) (simp add: Let_def)

lemma parseEEGSamples_stop:
  assumes "\<not> i + 2 < length payload"
  shows "parseEEGSamples now payload i u = u"
  using assms by (subst parseEEGSamples.simps) simp

lemma parseEEGSamples_binaryBuffer:
  "parseEEGSamples now payload i (t\<lparr>binaryBuffer := b\<rparr>)
     = (parseEEGSamples now payload i t)\<lparr>binaryBuffer := b\<rparr>"
proof (induction now payload i t rule: parseEEGSamples.induct)
  case (1 now payload i s)
  show ?case
  proof (cases "i + 2 < length payload")
    case True
    define v where "v = real_of_int (rawIntOf (uint (payload ! i)) (uint (payload ! (i + 1)))
              (uint (payload ! (i + 2)))) * UV_SCALE"
    define upd where "upd = (\<lambda>u :: DeviceService.
        u\<lparr>latestData := (latestData u)\<lparr>raw := \<lparr>timestamp = now i, valueUv = v\<rparr>\<rparr>,
          rawSignalBuffer := rawSignalBuffer u @ [v]\<rparr>)"
    have step: "parseEEGSamples now payload i u = parseEEGSamples now payload (i + 3) (upd u)" for u
      unfolding upd_def v_def by (rule parseEEGSamples_step [OF True])
    have comm: "upd (s\<lparr>binaryBuffer := b\<rparr>) = (upd s)\<lparr>binaryBuffer := b\<rparr>"
      by (simp add: upd_def)
    have ih: "parseEEGSamples now payload (i + 3) ((upd s)\<lparr>binaryBuffer := b\<rparr>)
        = (parseEEGSamples now payload (i + 3) (upd s))\<lparr>binaryBuffer := b\<rparr>"
      unfolding upd_def v_def using True
      by (intro "1.IH" [OF _ _ refl refl refl refl refl]) simp_all
    show ?thesis
      by (simp only: step comm ih)
  next
    case False
    show ?thesis
      by (simp only: parseEEGSamples_stop [OF False])
  qed
qed

lemma parseEEGPayload_binaryBuffer:
  "parseEEGPayload bandsOf now payload (t\<lparr>binaryBuffer := b\<rparr>)
     = (parseEEGPayload bandsOf now payload t)\<lparr>binaryBuffer := b\<rparr>"
  by (simp add: parseEEGPayload_def parseEEGSamples_binaryBuffer analyzeSignal_def Let_def)

text \<open>
  C1, as the specification states it, fails when the accumulator already holds a START
  octet. Noise \<open>01 02 03 04 AA F0\<close> leaves \<open>AA F0\<close> in the accumulator, waiting for the
  rest of a frame. A well-formed data frame appended to it is read as the continuation of
  that pending frame: the LENGTH octet is taken to be \<open>0xF0\<close>, the pass waits for 246
  octets, hands nothing to the sample decoder and consumes nothing.
\<close>

theorem data_frame_decoded_once_counterexample:
  "readChunks (parseEEGPayload (\<lambda>w. bands zeroSnapshot) (\<lambda>i. 0)) newDeviceService
       [[0x01, 0x02, 0x03, 0x04, 0xAA, 0xF0]]
     = newDeviceService\<lparr>binaryBuffer := [0xAA, 0xF0]\<rparr>
   \<and> frame_of 0xF0 0x07 [0x01, 0x02, 0x03] = [0xAA, 0xF0, 0x07, 0x03, 0x01, 0x02, 0x03, 0x73, 0xBB]
   \<and> processBinaryFrames (parseEEGPayload (\<lambda>w. bands zeroSnapshot) (\<lambda>i. 0))
         (appendBuffer [0xAA, 0xF0, 0x07, 0x03, 0x01, 0x02, 0x03, 0x73, 0xBB]
            (newDeviceService\<lparr>binaryBuffer := [0xAA, 0xF0]\<rparr>))
     = newDeviceService
         \<lparr>binaryBuffer := [0xAA, 0xF0, 0xAA, 0xF0, 0x07, 0x03, 0x01, 0x02, 0x03, 0x73, 0xBB]\<rparr>
   \<and> processLoop record_payload
         [0xAA, 0xF0, 0xAA, 0xF0, 0x07, 0x03, 0x01, 0x02, 0x03, 0x73, 0xBB] []
     = ([0xAA, 0xF0, 0xAA, 0xF0, 0x07, 0x03, 0x01, 0x02, 0x03, 0x73, 0xBB], [])"
  by code_simp

text \<open>
  C1, amended. Take a data frame: START \<open>0xAA\<close>, FUNCTION \<open>0xF0\<close>, an ADDRESS, the
  LENGTH of the payload (at most 255 octets), the payload, the CRC-8 of FUNCTION to
  payload, END \<open>0xBB\<close>. Let the accumulator hold no \<open>0xAA\<close> octet (it may be empty), cut
  the frame into chunks anywhere (empty chunks allowed, one chunk allowed) and let the read
  loop append each chunk with \<open>appendBuffer\<close> and run \<open>processBinaryFrames\<close>. Then the
  sample decoder is called exactly once, on the payload, which is octets 4 to 4 + LENGTH of
  the frame, and the accumulator is empty at the end: the whole frame is consumed. This
  holds for the sample decoder \<open>parseEEGPayload\<close> and for every handler in its place that,
  like it, neither reads nor writes the accumulator.
\<close>

theorem data_frame_decoded_once:
  assumes len: "length payload < 256"
    and chunks: "concat chunks = frame_of 0xF0 addr payload"
    and clean: "0xAA \<notin> set (binaryBuffer s)"
    and indep: "\<forall>p t b. parse p (t\<lparr>binaryBuffer := b\<rparr>) = (parse p t)\<lparr>binaryBuffer := b\<rparr>"
  shows "readChunks parse s chunks = (parse payload s)\<lparr>binaryBuffer := []\<rparr>
       \<and> processBinaryFrames parse (appendBuffer (frame_of 0xF0 addr payload) s)
           = (parse payload s)\<lparr>binaryBuffer := []\<rparr>
       \<and> readChunks (parseEEGPayload bandsOf now) s chunks
           = (parseEEGPayload bandsOf now payload s)\<lparr>binaryBuffer := []\<rparr>
       \<and> slice 4 (4 + length payload) (frame_of 0xF0 addr payload) = payload"
proof -
  have ne: "frame_of 0xF0 addr payload \<noteq> []"
    by (simp add: frame_of_shape)
  have g: "readChunks h s cs = (h payload s)\<lparr>binaryBuffer := []\<rparr>"
    if "concat cs = frame_of 0xF0 addr payload"
      and "\<forall>p t b. h p (t\<lparr>binaryBuffer := b\<rparr>) = (h p t)\<lparr>binaryBuffer := b\<rparr>"
    for h cs
    using readChunks_frame [OF len that(2), where pre = "binaryBuffer s" and q = "[]"
        and s = s and chunks = cs and addr = addr] clean that(1) ne by simp
  have one: "processBinaryFrames parse (appendBuffer (frame_of 0xF0 addr payload) s)
      = (parse payload s)\<lparr>binaryBuffer := []\<rparr>"
    using g [of "[frame_of 0xF0 addr payload]" parse] indep
    by (simp add: readChunks_def readChunk_def)
  have sl: "slice 4 (4 + length payload) (frame_of 0xF0 addr payload) = payload"
    by (simp add: frame_of_shape slice_def)
  have real: "\<forall>p t b. parseEEGPayload bandsOf now p (t\<lparr>binaryBuffer := b\<rparr>)
      = (parseEEGPayload bandsOf now p t)\<lparr>binaryBuffer := b\<rparr>"
    by (simp add: parseEEGPayload_binaryBuffer)
  from g [OF chunks indep] one g [OF chunks real] sl
  show ?thesis by blast
qed

theorem data_frame_decoded_once_witness:
  "length [0x01, 0x02, 0x03 :: byte] < 256
   \<and> concat [[0xAA, 0xF0], [], [0x07, 0x03, 0x01], [0x02, 0x03, 0x73], [0xBB]]
       = frame_of 0xF0 0x07 [0x01, 0x02, 0x03]
   \<and> 0xAA \<notin> set (binaryBuffer (newDeviceService\<lparr>binaryBuffer := [0x05, 0x06]\<rparr>))
   \<and> (\<forall>p t b. parseEEGPayload (\<lambda>w. bands zeroSnapshot) (\<lambda>i. 0) p (t\<lparr>binaryBuffer := b\<rparr>)
         = (parseEEGPayload (\<lambda>w. bands zeroSnapshot) (\<lambda>i. 0) p t)\<lparr>binaryBuffer := b\<rparr>)
   \<and> readChunks (parseEEGPayload (\<lambda>w. bands zeroSnapshot) (\<lambda>i. 0))
         (newDeviceService\<lparr>binaryBuffer := [0x05, 0x06]\<rparr>)
         [[0xAA, 0xF0], [], [0x07, 0x03, 0x01], [0x02, 0x03, 0x73], [0xBB]]
       = newDeviceService
           \<lparr>rawSignalBuffer := [66051 * UV_SCALE],
            latestData := zeroSnapshot\<lparr>raw := \<lparr>timestamp = 0, valueUv = 66051 * UV_SCALE\<rparr>\<rparr>\<rparr>"
proof -
  have l: "length [0x01, 0x02, 0x03 :: byte] < 256"
    by simp
  have c: "concat [[0xAA, 0xF0], [], [0x07, 0x03, 0x01], [0x02, 0x03, 0x73], [0xBB]]
      = frame_of 0xF0 0x07 [0x01, 0x02, 0x03]"
    by code_simp
  have n: "0xAA \<notin> set (binaryBuffer (newDeviceService\<lparr>binaryBuffer := [0x05, 0x06]\<rparr>))"
    by simp
  have i: "\<forall>p t b. parseEEGPayload (\<lambda>w. bands zeroSnapshot) (\<lambda>i. 0) p (t\<lparr>binaryBuffer := b\<rparr>)
         = (parseEEGPayload (\<lambda>w. bands zeroSnapshot) (\<lambda>i. 0) p t)\<lparr>binaryBuffer := b\<rparr>"
    by (simp add: parseEEGPayload_binaryBuffer)
  have r: "rawIntOf 1 2 3 = 66051"
    by (simp add: rawIntOf_def push_bit_eq_mult)
  have v: "(parseEEGPayload (\<lambda>w. bands zeroSnapshot) (\<lambda>i. 0) [0x01, 0x02, 0x03]
        (newDeviceService\<lparr>binaryBuffer := [0x05, 0x06]\<rparr>))\<lparr>binaryBuffer := []\<rparr>
      = newDeviceService
           \<lparr>rawSignalBuffer := [66051 * UV_SCALE],
            latestData := zeroSnapshot\<lparr>raw := \<lparr>timestamp = 0, valueUv = 66051 * UV_SCALE\<rparr>\<rparr>\<rparr>"
    by (simp add: parseEEGPayload_def parseEEGSamples_step parseEEGSamples_stop r FFT_SIZE_def
        newDeviceService_def)
  from data_frame_decoded_once [OF l c n i, THEN conjunct1] l c n i v
  show ?thesis by simp
qed

end
